theory Spec2Isabelle
  imports Main "HOL-Library.Sublist" "HOL-Library.Word"
begin

section \<open>Python string primitives used by the document processor\<close>

text \<open>
  A Python \<open>str\<close> is modelled as a \<open>string\<close>; a \<open>char\<close> stands for the code
  point of the same number (the code points below 256).  Offsets are \<open>int\<close>, since
  the chunking loop can drive its offset below zero, where Python's slicing and
  \<open>rfind\<close> count from the end of the text.
\<close>

definition isspace :: "char \<Rightarrow> bool" where
  \<comment> \<open>\<open>str.isspace\<close> on one code point: TAB..CR, FS..US, SPACE, NEL, NBSP.\<close>
  "isspace c = ((of_char c :: nat) \<in> {9, 10, 11, 12, 13, 28, 29, 30, 31, 32, 133, 160})"

definition strip :: "string \<Rightarrow> string" where
  \<comment> \<open>\<open>s.strip()\<close>: leading and trailing whitespace removed.\<close>
  "strip s = rev (dropWhile isspace (rev (dropWhile isspace s)))"

definition slice_index :: "int \<Rightarrow> int \<Rightarrow> int" where
  \<comment> \<open>How a slice bound is read against a sequence of length \<open>n\<close>: a negative bound
      counts from the end, and the result is clipped to \<open>0..n\<close>.\<close>
  "slice_index n i = (if i < 0 then max 0 (i + n) else min i n)"

definition py_slice :: "'a list \<Rightarrow> int \<Rightarrow> int \<Rightarrow> 'a list" where
  \<comment> \<open>\<open>xs[i:j]\<close>\<close>
  "py_slice xs i j =
     (let n = int (length xs); a = slice_index n i; b = slice_index n j
      in take (nat (b - a)) (drop (nat a) xs))"

fun rfind_scan :: "'a list \<Rightarrow> 'a list \<Rightarrow> int \<Rightarrow> nat \<Rightarrow> int" where
  \<comment> \<open>The candidates \<open>lo + k - 1, ..., lo\<close> in that order; \<open>-1\<close> when none matches.\<close>
  "rfind_scan s sub lo 0 = - 1"
| "rfind_scan s sub lo (Suc k) =
     (if take (length sub) (drop (nat (lo + int k)) s) = sub then lo + int k
      else rfind_scan s sub lo k)"

definition rfind :: "'a list \<Rightarrow> 'a list \<Rightarrow> int \<Rightarrow> int \<Rightarrow> int" where
  \<comment> \<open>\<open>s.rfind(sub, start, end)\<close>: the highest index \<open>i\<close> with \<open>s[i:i+len(sub)] == sub\<close>
      inside \<open>s[start:end]\<close>, or \<open>-1\<close>.  The bounds are adjusted as CPython does:
      \<open>end\<close> is clipped to the length, negative bounds count from the end and are
      clipped to 0.\<close>
  "rfind s sub start end =
     (let n = int (length s); m = int (length sub);
          b = (if end > n then n else if end < 0 then max 0 (end + n) else end);
          a = (if start < 0 then max 0 (start + n) else start)
      in if b - a < m then - 1 else rfind_scan s sub a (nat (b - a - m + 1)))"

fun contains :: "'a list \<Rightarrow> 'a list \<Rightarrow> bool" where
  \<comment> \<open>\<open>contains sub s\<close> is Python's \<open>sub in s\<close> on strings: \<open>sub\<close> occurs in \<open>s\<close> as a
      contiguous run.\<close>
  "contains sub [] = (sub = [])"
| "contains sub (c # cs) = (take (length sub) (c # cs) = sub \<or> contains sub cs)"

section \<open>DocumentProcessor.split_text\<close>

record processor =
  chunk_size :: int
  chunk_overlap :: int
  supported_extensions :: "string list"

definition DocumentProcessor :: "int \<Rightarrow> int \<Rightarrow> processor" where
  \<comment> \<open>\<open>__init__\<close>; the defaults are \<open>DocumentProcessor 1000 200\<close>.\<close>
  "DocumentProcessor cs ov =
     \<lparr>chunk_size = cs, chunk_overlap = ov,
      supported_extensions =
        [''.md'', ''.txt'', ''.py'', ''.js'', ''.json'', ''.yaml'', ''.yml'',
         ''.pdf'', ''.docx'', ''.pptx'', ''.html'', ''.csv'']\<rparr>"

definition cut_point :: "processor \<Rightarrow> string \<Rightarrow> int \<Rightarrow> int" where
  \<comment> \<open>The value of \<open>end\<close> after the cut-point search of one iteration.\<close>
  "cut_point p text start =
     (let end = start + chunk_size p in
      if end < int (length text) then
        (let last_double_newline = rfind text [CHR 0x0A, CHR 0x0A] start end in
         if last_double_newline > start then last_double_newline
         else
           (let last_period = rfind text ''. '' start end in
            if last_period > start then last_period + 1
            else
              (let last_space = rfind text '' '' start end in
               if last_space > start then last_space else end)))
      else end)"

definition emit :: "string list \<Rightarrow> string \<Rightarrow> string list" where
  \<comment> \<open>\<open>if chunk: chunks.append(chunk)\<close>\<close>
  "emit chunks chunk = (if chunk \<noteq> [] then chunks @ [chunk] else chunks)"

definition next_start :: "processor \<Rightarrow> string \<Rightarrow> int \<Rightarrow> int" where
  \<comment> \<open>\<open>start = end - self.chunk_overlap if end < len(text) else end\<close>\<close>
  "next_start p text end =
     (if end < int (length text) then end - chunk_overlap p else end)"

partial_function (option)
  split_loop :: "processor \<Rightarrow> string \<Rightarrow> int \<Rightarrow> string list \<Rightarrow> string list option"
where
  "split_loop p text start chunks =
     (if start < int (length text) then
        split_loop p text
          (next_start p text (cut_point p text start))
          (emit chunks (strip (py_slice text start (cut_point p text start))))
      else Some chunks)"

definition split_text :: "processor \<Rightarrow> string \<Rightarrow> string list option" where
  \<comment> \<open>\<open>None\<close> is the loop running forever.\<close>
  "split_text p text =
     (if int (length text) \<le> chunk_size p then Some [text]
      else split_loop p text 0 [])"

section \<open>Documents and the extractor\<close>

datatype pyval = PyStr string | PyInt int

record document =
  content :: string
  source :: string
  chunk_id :: int
  metadata :: "(string \<times> pyval) list"

text \<open>
  A \<open>pathlib.Path\<close> is taken with the three readings the code makes of it:
  \<open>str(path)\<close>, \<open>path.name\<close> and \<open>path.suffix\<close>.
\<close>

record pypath =
  path_str :: string
  path_name :: string
  path_suffix :: string

datatype exn =
  ImportError | OSError | UnicodeDecodeError | CalledProcessError | HTTPError
  | IndexError | OtherError

type_synonym byte = "8 word"

text \<open>
  What the extractor reads from outside the program: the file system, the UTF-8 codec
  and the three format libraries.  A library call is a function of the document's bytes
  that returns what the code reads from the parsed document, or the exception it raises.
\<close>

record environment =
  read_bytes :: "string \<Rightarrow> exn + byte list"
  utf8_decode :: "byte list \<Rightarrow> exn + string"
  has_pdfplumber :: bool
  pdfplumber_pages :: "byte list \<Rightarrow> exn + string option list"
  pypdf2_pages :: "byte list \<Rightarrow> exn + string list"
  docx_paragraphs :: "byte list \<Rightarrow> exn + string list"
  pptx_shape_texts :: "byte list \<Rightarrow> exn + string option list list"
  path_exists :: "string \<Rightarrow> bool"
  rglob :: "string \<Rightarrow> exn + pypath list"
  is_file :: "string \<Rightarrow> bool"

definition lower_char :: "char \<Rightarrow> char" where
  "lower_char c =
     (let n = (of_char c :: nat) in
      if (65 \<le> n \<and> n \<le> 90) \<or> (192 \<le> n \<and> n \<le> 222 \<and> n \<noteq> 215)
      then char_of (n + 32) else c)"

definition lower :: "string \<Rightarrow> string" where
  "lower s = map lower_char s"

fun join :: "string \<Rightarrow> string list \<Rightarrow> string" where
  "join sep [] = []"
| "join sep [x] = x"
| "join sep (x # y # ys) = x @ sep @ join sep (y # ys)"

fun universal_newlines :: "string \<Rightarrow> string" where
  \<comment> \<open>A file opened in text mode with the default \<open>newline=None\<close>: on reading,
      \<open>\r\n\<close> and a lone \<open>\r\<close> become \<open>\n\<close>.\<close>
  "universal_newlines [] = []"
| "universal_newlines [c] = (if c = CHR 0x0D then [CHR 0x0A] else [c])"
| "universal_newlines (c # d # cs) =
     (if c = CHR 0x0D \<and> d = CHR 0x0A then CHR 0x0A # universal_newlines cs
      else if c = CHR 0x0D then CHR 0x0A # universal_newlines (d # cs)
      else c # universal_newlines (d # cs))"

definition read_text :: "environment \<Rightarrow> string \<Rightarrow> exn + string" where
  \<comment> \<open>\<open>with open(file_path, 'r', encoding='utf-8') as f: return f.read()\<close>\<close>
  "read_text env file =
     (case read_bytes env file of
        Inl e \<Rightarrow> Inl e
      | Inr bs \<Rightarrow>
          (case utf8_decode env bs of
             Inl e \<Rightarrow> Inl e
           | Inr s \<Rightarrow> Inr (universal_newlines s)))"

definition pdfplumber_text :: "environment \<Rightarrow> exn + byte list \<Rightarrow> exn + string" where
  \<comment> \<open>The \<open>try\<close> body of the PDF extractors; \<open>src\<close> is the document as the library
      gets it (the file read from the path, or the buffer).\<close>
  "pdfplumber_text env src =
     (if \<not> has_pdfplumber env then Inl ImportError
      else
        (case src of
           Inl e \<Rightarrow> Inl e
         | Inr bs \<Rightarrow>
             (case pdfplumber_pages env bs of
                Inl e \<Rightarrow> Inl e
              | Inr pages \<Rightarrow>
                  Inr (foldl (\<lambda>text page_text.
                         (case page_text of
                            None \<Rightarrow> text
                          | Some t \<Rightarrow> if t \<noteq> [] then text @ t @ [CHR 0x0A] else text))
                       [] pages))))"

definition pypdf2_text :: "environment \<Rightarrow> exn + byte list \<Rightarrow> string" where
  \<comment> \<open>The \<open>except ImportError\<close> handler: PyPDF2, any exception giving \<open>""\<close>.\<close>
  "pypdf2_text env src =
     (case src of
        Inl e \<Rightarrow> []
      | Inr bs \<Rightarrow>
          (case pypdf2_pages env bs of
             Inl e \<Rightarrow> []
           | Inr pages \<Rightarrow> foldl (\<lambda>text t. text @ t @ [CHR 0x0A]) [] pages))"

definition pdf_text :: "environment \<Rightarrow> exn + byte list \<Rightarrow> exn + string" where
  "pdf_text env src =
     (case pdfplumber_text env src of
        Inl ImportError \<Rightarrow> Inr (pypdf2_text env src)
      | Inl e \<Rightarrow> Inl e
      | Inr text \<Rightarrow> Inr text)"

definition docx_text :: "environment \<Rightarrow> exn + byte list \<Rightarrow> string" where
  "docx_text env src =
     (case src of
        Inl e \<Rightarrow> []
      | Inr bs \<Rightarrow>
          (case docx_paragraphs env bs of
             Inl e \<Rightarrow> []
           | Inr paras \<Rightarrow> join [CHR 0x0A] paras))"

definition pptx_text :: "environment \<Rightarrow> exn + byte list \<Rightarrow> string" where
  "pptx_text env src =
     (case src of
        Inl e \<Rightarrow> []
      | Inr bs \<Rightarrow>
          (case pptx_shape_texts env bs of
             Inl e \<Rightarrow> []
           | Inr slides \<Rightarrow>
               foldl (\<lambda>text shapes.
                   foldl (\<lambda>text shape.
                       (case shape of None \<Rightarrow> text | Some t \<Rightarrow> text @ t @ [CHR 0x0A]))
                     text shapes)
                 [] slides))"

definition extract_pdf :: "environment \<Rightarrow> pypath \<Rightarrow> exn + string" where
  "extract_pdf env file_path = pdf_text env (read_bytes env (path_str file_path))"

definition extract_pdf_from_bytes :: "environment \<Rightarrow> byte list \<Rightarrow> exn + string" where
  "extract_pdf_from_bytes env file_bytes = pdf_text env (Inr file_bytes)"

definition extract_docx :: "environment \<Rightarrow> pypath \<Rightarrow> string" where
  "extract_docx env file_path = docx_text env (read_bytes env (path_str file_path))"

definition extract_docx_from_bytes :: "environment \<Rightarrow> byte list \<Rightarrow> string" where
  "extract_docx_from_bytes env file_bytes = docx_text env (Inr file_bytes)"

definition extract_pptx :: "environment \<Rightarrow> pypath \<Rightarrow> string" where
  "extract_pptx env file_path = pptx_text env (read_bytes env (path_str file_path))"

definition extract_pptx_from_bytes :: "environment \<Rightarrow> byte list \<Rightarrow> string" where
  "extract_pptx_from_bytes env file_bytes = pptx_text env (Inr file_bytes)"

definition extract_content :: "environment \<Rightarrow> pypath \<Rightarrow> string" where
  \<comment> \<open>\<open>_extract_content\<close>: any exception gives \<open>""\<close>.\<close>
  "extract_content env file_path =
     (let file_ext = lower (path_suffix file_path) in
      case (if file_ext = ''.pdf'' then extract_pdf env file_path
            else if file_ext = ''.docx'' then Inr (extract_docx env file_path)
            else if file_ext = ''.pptx'' then Inr (extract_pptx env file_path)
            else read_text env (path_str file_path)) of
        Inl e \<Rightarrow> []
      | Inr text \<Rightarrow> text)"

definition extract_content_from_bytes ::
  "environment \<Rightarrow> byte list \<Rightarrow> string \<Rightarrow> string \<Rightarrow> string" where
  \<comment> \<open>\<open>_extract_content_from_bytes\<close>; \<open>filename\<close> is only logged.\<close>
  "extract_content_from_bytes env file_bytes file_ext filename =
     (case (if file_ext = ''.pdf'' then extract_pdf_from_bytes env file_bytes
            else if file_ext = ''.docx'' then Inr (extract_docx_from_bytes env file_bytes)
            else if file_ext = ''.pptx'' then Inr (extract_pptx_from_bytes env file_bytes)
            else utf8_decode env file_bytes) of
        Inl e \<Rightarrow> []
      | Inr text \<Rightarrow> text)"

section \<open>Loading documents\<close>

text \<open>
  The loaders return \<open>None\<close> when \<open>split_text\<close> does not return.  Nothing in the
  \<open>try\<close> bodies of \<open>load_document\<close> raises in this model (\<open>_extract_content\<close> catches
  its own exceptions), so their \<open>except\<close> branch only shows in \<open>load_uploaded_file\<close>,
  where reading the upload can raise.
\<close>

definition load_document :: "processor \<Rightarrow> environment \<Rightarrow> pypath \<Rightarrow> document list option" where
  "load_document p env file_path =
     (let content = extract_content env file_path in
      if content = [] then Some []
      else
        (case split_text p content of
           None \<Rightarrow> None
         | Some chunks \<Rightarrow>
             Some (map (\<lambda>(idx, chunk).
                     \<lparr>content = chunk,
                      source = path_str file_path,
                      chunk_id = int idx,
                      metadata =
                        [(''file_name'', PyStr (path_name file_path)),
                         (''file_type'', PyStr (path_suffix file_path)),
                         (''chunk_index'', PyInt (int idx)),
                         (''total_chunks'', PyInt (int (length chunks)))]\<rparr>)
                   (enumerate 0 chunks))))"

definition load_uploaded_file ::
  "processor \<Rightarrow> environment \<Rightarrow> exn + byte list \<Rightarrow> pypath \<Rightarrow> document list option" where
  \<comment> \<open>\<open>uploaded_file\<close> is what \<open>uploaded_file.read()\<close> gives; \<open>filename\<close> comes with
      the suffix that \<open>Path(filename)\<close> reads from it, and \<open>path_str filename\<close> is the
      string itself.\<close>
  "load_uploaded_file p env uploaded_file filename =
     (let file_ext = lower (path_suffix filename) in
      case uploaded_file of
        Inl e \<Rightarrow> Some []
      | Inr file_bytes \<Rightarrow>
          (let content = extract_content_from_bytes env file_bytes file_ext (path_str filename) in
           if content = [] then Some []
           else
             (case split_text p content of
                None \<Rightarrow> None
              | Some chunks \<Rightarrow>
                  Some (map (\<lambda>(idx, chunk).
                          \<lparr>content = chunk,
                           source = path_str filename,
                           chunk_id = int idx,
                           metadata =
                             [(''file_name'', PyStr (path_str filename)),
                              (''file_type'', PyStr file_ext),
                              (''chunk_index'', PyInt (int idx)),
                              (''total_chunks'', PyInt (int (length chunks))),
                              (''upload_type'', PyStr ''direct_upload'')]\<rparr>)
                        (enumerate 0 chunks)))))"

fun load_files ::
  "processor \<Rightarrow> environment \<Rightarrow> pypath list \<Rightarrow> document list \<Rightarrow> document list option" where
  \<comment> \<open>The loop of \<open>load_documents_from_directory\<close> over the files found.\<close>
  "load_files p env [] documents = Some documents"
| "load_files p env (file_path # rest) documents =
     (if is_file env (path_str file_path) \<and> path_suffix file_path \<in> set (supported_extensions p)
      then
        (case load_document p env file_path of
           None \<Rightarrow> None
         | Some docs \<Rightarrow> load_files p env rest (documents @ docs))
      else load_files p env rest documents)"

definition load_documents_from_directory ::
  "processor \<Rightarrow> environment \<Rightarrow> string \<Rightarrow> (exn + document list) option" where
  "load_documents_from_directory p env directory =
     (if \<not> path_exists env directory then Some (Inr [])
      else
        (case rglob env directory of
           Inl e \<Rightarrow> Some (Inl e)
         | Inr files \<Rightarrow> map_option Inr (load_files p env files [])))"

section \<open>Change matching\<close>

fun in_any :: "string list \<Rightarrow> string \<Rightarrow> bool" where
  \<comment> \<open>The inner loop of \<open>filter_changed_documents\<close>: whether some \<open>changed_file\<close>
      passes \<open>changed_file in doc.source\<close>.\<close>
  "in_any [] src = False"
| "in_any (changed_file # rest) src =
     (if contains changed_file src then True else in_any rest src)"

fun filter_changed_documents :: "document list \<Rightarrow> string list \<Rightarrow> document list" where
  "filter_changed_documents [] changed_files = []"
| "filter_changed_documents (doc # all_docs) changed_files =
     (if in_any changed_files (source doc)
      then doc # filter_changed_documents all_docs changed_files
      else filter_changed_documents all_docs changed_files)"

section \<open>The synchronization cycle\<close>

text \<open>
  The watcher and the index are collaborators outside these sources.  One cycle calls
  each watcher method at most once, so the watcher is given by what each call returns or
  raises in this cycle.  The index is a state \<open>'idx\<close> with its two mutating methods as
  functions; every call issued against it is also recorded in \<open>index_calls\<close>.
\<close>

datatype index_call = RemoveDocuments "string list" | IndexDocuments "document list"

record ('idx, 't) session_state =
  has_git_watcher :: bool
  rag :: 'idx
  index_calls :: "index_call list"
  session_processor :: processor
  last_update :: "'t option"
  shown_errors :: "exn list"

record ('idx, 't) collaborators =
  watcher_check_for_updates :: "exn + bool"
  watcher_pull_updates :: "exn + bool"
  watcher_get_changed_files :: "exn + string list"
  rag_remove_documents :: "string list \<Rightarrow> 'idx \<Rightarrow> (exn + unit) \<times> 'idx"
  rag_index_documents :: "document list \<Rightarrow> 'idx \<Rightarrow> (exn + unit) \<times> 'idx"
  docs_repo_path :: string
  time_now :: 't

definition st_error :: "exn \<Rightarrow> ('idx, 't) session_state \<Rightarrow> bool \<times> ('idx, 't) session_state" where
  \<comment> \<open>The \<open>except\<close> handler of \<open>check_for_updates\<close>, followed by its \<open>return False\<close>.\<close>
  "st_error e s = (False, s\<lparr>shown_errors := shown_errors s @ [e]\<rparr>)"

definition check_for_updates ::
  "('idx, 't) collaborators \<Rightarrow> environment \<Rightarrow> ('idx, 't) session_state
     \<Rightarrow> (bool \<times> ('idx, 't) session_state) option" where
  "check_for_updates c env s =
     (if has_git_watcher s then
        (case watcher_check_for_updates c of
           Inl e \<Rightarrow> Some (st_error e s)
         | Inr updates \<Rightarrow>
           if updates then
             (case watcher_pull_updates c of
                Inl e \<Rightarrow> Some (st_error e s)
              | Inr pulled \<Rightarrow>
                if pulled then
                  (case watcher_get_changed_files c of
                     Inl e \<Rightarrow> Some (st_error e s)
                   | Inr changed_files \<Rightarrow>
                     (let (removed, rag1) = rag_remove_documents c changed_files (rag s);
                          s1 = s\<lparr>rag := rag1,
                                 index_calls := index_calls s @ [RemoveDocuments changed_files]\<rparr>
                      in case removed of
                           Inl e \<Rightarrow> Some (st_error e s1)
                         | Inr u \<Rightarrow>
                           (case load_documents_from_directory (session_processor s1) env
                                   (docs_repo_path c) of
                              None \<Rightarrow> None
                            | Some (Inl e) \<Rightarrow> Some (st_error e s1)
                            | Some (Inr docs) \<Rightarrow>
                              (let changed_docs = filter_changed_documents docs changed_files;
                                   (indexed, rag2) = rag_index_documents c changed_docs rag1;
                                   s2 = s1\<lparr>rag := rag2,
                                           index_calls :=
                                             index_calls s1 @ [IndexDocuments changed_docs]\<rparr>
                               in case indexed of
                                    Inl e \<Rightarrow> Some (st_error e s2)
                                  | Inr u \<Rightarrow>
                                      Some (True, s2\<lparr>last_update := Some (time_now c)\<rparr>)))))
                else Some (False, s))
           else Some (False, s))
      else Some (False, s))"

section \<open>The ingestors\<close>

definition startswith :: "string \<Rightarrow> string \<Rightarrow> bool" where
  "startswith s pre = (take (length pre) s = pre)"

definition endswith :: "string \<Rightarrow> string \<Rightarrow> bool" where
  "endswith s suf = (length suf \<le> length s \<and> drop (length s - length suf) s = suf)"

fun split_go :: "string \<Rightarrow> nat \<Rightarrow> string \<Rightarrow> string \<Rightarrow> string list" where
  \<comment> \<open>Left to right; \<open>skip\<close> counts the characters of a separator just matched that
      are still to be passed over, \<open>cur\<close> is the piece being collected.\<close>
  "split_go sep skip cur [] = [cur]"
| "split_go sep skip cur (c # cs) =
     (if skip > 0 then split_go sep (skip - 1) cur cs
      else if take (length sep) (c # cs) = sep then cur # split_go sep (length sep - 1) [] cs
      else split_go sep 0 (cur @ [c]) cs)"

definition py_split :: "string \<Rightarrow> string \<Rightarrow> string list" where
  \<comment> \<open>\<open>s.split(sep)\<close> for a non-empty separator.\<close>
  "py_split s sep = split_go sep 0 [] s"

fun replace_go :: "string \<Rightarrow> string \<Rightarrow> nat \<Rightarrow> string \<Rightarrow> string" where
  "replace_go old new skip [] = []"
| "replace_go old new skip (c # cs) =
     (if skip > 0 then replace_go old new (skip - 1) cs
      else if take (length old) (c # cs) = old then new @ replace_go old new (length old - 1) cs
      else c # replace_go old new 0 cs)"

definition replace :: "string \<Rightarrow> string \<Rightarrow> string \<Rightarrow> string" where
  \<comment> \<open>\<open>s.replace(old, new)\<close> for a non-empty \<open>old\<close>.\<close>
  "replace s old new = replace_go old new 0 s"

definition strip_chars :: "string \<Rightarrow> string \<Rightarrow> string" where
  \<comment> \<open>\<open>s.strip(chars)\<close>\<close>
  "strip_chars s chars =
     rev (dropWhile (\<lambda>c. c \<in> set chars) (rev (dropWhile (\<lambda>c. c \<in> set chars) s)))"

definition item :: "'a list \<Rightarrow> int \<Rightarrow> exn + 'a" where
  \<comment> \<open>\<open>xs[i]\<close>, with \<open>IndexError\<close> out of range.\<close>
  "item xs i =
     (let k = (if i < 0 then i + int (length xs) else i)
      in if 0 \<le> k \<and> k < int (length xs) then Inr (xs ! nat k) else Inl IndexError)"

record response =
  status_code :: nat
  cookies :: "(string \<times> string) list"
  headers :: "string \<Rightarrow> string option"
  iter_content :: "exn + byte list list"

text \<open>
  The network, \<open>git\<close> and the temporary directory, as the ingestors call them.  The
  content written to disk is not tracked: the ingestors are read through what they
  return.
\<close>

record network =
  mkdtemp :: "string \<Rightarrow> exn + string"
  git_clone :: "string \<Rightarrow> string \<Rightarrow> exn + unit"
  http_get :: "string \<Rightarrow> (string \<times> string) list \<Rightarrow> exn + response"
  gettempdir :: string
  path_join :: "string \<Rightarrow> string \<Rightarrow> string"
  open_wb :: "string \<Rightarrow> exn + unit"

definition raise_for_status :: "response \<Rightarrow> exn + unit" where
  \<comment> \<open>\<open>response.raise_for_status()\<close>: \<open>HTTPError\<close> on a 4xx or 5xx status.\<close>
  "raise_for_status r =
     (if 400 \<le> status_code r \<and> status_code r < 600 then Inl HTTPError else Inr ())"

definition save_body :: "network \<Rightarrow> response \<Rightarrow> string \<Rightarrow> string option" where
  \<comment> \<open>The common tail of both downloads: open the output file, stream the body into
      it, return the path; \<open>None\<close> from the \<open>except\<close> handler.\<close>
  "save_body net r output_path =
     (case open_wb net output_path of
        Inl e \<Rightarrow> None
      | Inr u \<Rightarrow>
          (case iter_content r of
             Inl e \<Rightarrow> None
           | Inr chunks \<Rightarrow> Some output_path))"

definition clone_repo :: "network \<Rightarrow> string \<Rightarrow> string option \<Rightarrow> string option" where
  \<comment> \<open>\<open>GitHubRepoHandler.clone_repo\<close>; both \<open>except\<close> handlers return \<open>None\<close>.\<close>
  "clone_repo net repo_url target_dir =
     (case (case target_dir of None \<Rightarrow> mkdtemp net ''github_repo_'' | Some d \<Rightarrow> Inr d) of
        Inl e \<Rightarrow> None
      | Inr dir \<Rightarrow>
          (let url1 = (if \<not> (startswith repo_url ''http://'' \<or> startswith repo_url ''https://'')
                       then ''https://github.com/'' @ repo_url else repo_url);
               url2 = (if \<not> endswith url1 ''.git'' then url1 @ ''.git'' else url1)
           in case git_clone net url2 dir of
                Inl e \<Rightarrow> None
              | Inr u \<Rightarrow> Some dir))"

definition extract_file_id :: "string \<Rightarrow> exn + string option" where
  \<comment> \<open>\<open>GoogleDriveHandler.extract_file_id\<close>\<close>
  "extract_file_id drive_url =
     (if contains ''/file/d/'' drive_url then
        (case item (py_split drive_url ''/file/d/'') 1 of
           Inl e \<Rightarrow> Inl e
         | Inr t \<Rightarrow> map_sum id Some (item (py_split t ''/'') 0))
      else if contains ''id='' drive_url then
        (case item (py_split drive_url ''id='') 1 of
           Inl e \<Rightarrow> Inl e
         | Inr t \<Rightarrow> map_sum id Some (item (py_split t ''&'') 0))
      else if contains ''/open?id='' drive_url then
        (case item (py_split drive_url ''/open?id='') 1 of
           Inl e \<Rightarrow> Inl e
         | Inr t \<Rightarrow> map_sum id Some (item (py_split t ''&'') 0))
      else Inr None)"

fun confirm_downloads ::
  "network \<Rightarrow> string \<Rightarrow> string \<Rightarrow> (string \<times> string) list \<Rightarrow> response \<Rightarrow> exn + response" where
  \<comment> \<open>The loop over the first response's cookies: each \<open>download_warning\<close> cookie
      repeats the request with its value as the \<open>confirm\<close> parameter.\<close>
  "confirm_downloads net download_url file_id [] r = Inr r"
| "confirm_downloads net download_url file_id ((key, v) # rest) r =
     (if startswith key ''download_warning'' then
        (case http_get net download_url [(''id'', file_id), (''confirm'', v)] of
           Inl e \<Rightarrow> Inl e
         | Inr r' \<Rightarrow> confirm_downloads net download_url file_id rest r')
      else confirm_downloads net download_url file_id rest r)"

definition drive_filename :: "response \<Rightarrow> string \<Rightarrow> exn + string" where
  \<comment> \<open>The name of the temporary file, from the \<open>content-disposition\<close> header.\<close>
  "drive_filename r file_id =
     (let content_disposition =
            (case headers r ''content-disposition'' of None \<Rightarrow> [] | Some h \<Rightarrow> h)
      in if contains ''filename='' content_disposition then
           map_sum id (\<lambda>t. strip_chars t [CHR 0x22])
             (item (py_split content_disposition ''filename='') 1)
         else Inr (''drive_file_'' @ file_id))"

definition drive_download_file :: "network \<Rightarrow> string \<Rightarrow> string option \<Rightarrow> string option" where
  \<comment> \<open>\<open>GoogleDriveHandler.download_file\<close>\<close>
  "drive_download_file net drive_url output_path =
     (case extract_file_id drive_url of
        Inl e \<Rightarrow> None
      | Inr None \<Rightarrow> None
      | Inr (Some file_id) \<Rightarrow>
          if file_id = [] then None
          else
            (let download_url = ''https://drive.google.com/uc?export=download&id='' @ file_id
             in case http_get net download_url [] of
                  Inl e \<Rightarrow> None
                | Inr r0 \<Rightarrow>
                    (case confirm_downloads net download_url file_id (cookies r0) r0 of
                       Inl e \<Rightarrow> None
                     | Inr r \<Rightarrow>
                         (case (case output_path of
                                  None \<Rightarrow>
                                    map_sum id (path_join net (gettempdir net))
                                      (drive_filename r file_id)
                                | Some out \<Rightarrow> Inr out) of
                            Inl e \<Rightarrow> None
                          | Inr out \<Rightarrow> save_body net r out))))"

definition dropbox_download_file :: "network \<Rightarrow> string \<Rightarrow> string option \<Rightarrow> string option" where
  \<comment> \<open>\<open>DropboxHandler.download_file\<close>\<close>
  "dropbox_download_file net dropbox_url output_path =
     (let download_url =
            (if contains ''www.dropbox.com'' dropbox_url then
               (let u = replace dropbox_url ''www.dropbox.com'' ''dl.dropboxusercontent.com''
                in if contains ''?dl=0'' u then replace u ''?dl=0'' ''?dl=1''
                   else if \<not> contains ''dl='' u then u @ ''?dl=1''
                   else u)
             else dropbox_url)
      in case http_get net download_url [] of
           Inl e \<Rightarrow> None
         | Inr r \<Rightarrow>
             (case raise_for_status r of
                Inl e \<Rightarrow> None
              | Inr u \<Rightarrow>
                  (case (case output_path of
                           None \<Rightarrow>
                             (case item (py_split dropbox_url ''/'') (- 1) of
                                Inl e \<Rightarrow> Inl e
                              | Inr t \<Rightarrow>
                                  map_sum id (path_join net (gettempdir net))
                                    (item (py_split t ''?'') 0))
                         | Some out \<Rightarrow> Inr out) of
                     Inl e \<Rightarrow> None
                   | Inr out \<Rightarrow> save_body net r out)))"

section \<open>Concrete inputs\<close>

text \<open>
  The inputs at which the theorems below are evaluated.  \<open>ascii_decode\<close> is UTF-8
  decoding on 7-bit input, where every byte is the code point it encodes; the sample
  files are 7-bit, and a byte from \<open>0x80\<close> on is refused here.
\<close>

definition ascii_decode :: "byte list \<Rightarrow> exn + string" where
  "ascii_decode bs =
     (if list_all (\<lambda>b. b < 0x80) bs then Inr (map (\<lambda>b. char_of (unat b)) bs)
      else Inl UnicodeDecodeError)"

text \<open>A machine with one readable file and none of the format libraries installed.\<close>

definition one_file_environment :: "string \<Rightarrow> byte list \<Rightarrow> environment" where
  "one_file_environment file bs =
     \<lparr>read_bytes = (\<lambda>f. if f = file then Inr bs else Inl OSError),
      utf8_decode = ascii_decode,
      has_pdfplumber = False,
      pdfplumber_pages = (\<lambda>b. Inl ImportError),
      pypdf2_pages = (\<lambda>b. Inl ImportError),
      docx_paragraphs = (\<lambda>b. Inl ImportError),
      pptx_shape_texts = (\<lambda>b. Inl ImportError),
      path_exists = (\<lambda>d. False),
      rglob = (\<lambda>d. Inr []),
      is_file = (\<lambda>f. f = file)\<rparr>"

definition crlf_bytes :: "byte list" where
  \<comment> \<open>\<open>b"a\r\nb"\<close>\<close>
  "crlf_bytes = [0x61, 0x0D, 0x0A, 0x62]"

definition notes_txt :: pypath where
  "notes_txt = \<lparr>path_str = ''notes.txt'', path_name = ''notes.txt'', path_suffix = ''.txt''\<rparr>"

definition words_bytes :: "byte list" where
  \<comment> \<open>\<open>b"a bcccccc ccccc"\<close>\<close>
  "words_bytes =
     [0x61, 0x20, 0x62, 0x63, 0x63, 0x63, 0x63, 0x63, 0x63, 0x20, 0x63, 0x63, 0x63, 0x63, 0x63]"

definition words_txt :: pypath where
  "words_txt = \<lparr>path_str = ''words.txt'', path_name = ''words.txt'', path_suffix = ''.txt''\<rparr>"

text \<open>201 spaces followed by 1000 letters: \<open>' ' * 201 + 'c' * 1000\<close>.\<close>

definition blank_then_word :: string where
  "blank_then_word = replicate 201 (CHR '' '') @ replicate 1000 (CHR ''c'')"

text \<open>A heading, a blank line and a paragraph of 1200 letters.\<close>

definition heading_then_paragraph :: string where
  "heading_then_paragraph = ''# Title'' @ [CHR 0x0A, CHR 0x0A] @ replicate 1200 (CHR ''x'')"

text \<open>A session with one indexed chunk, and a cycle whose pull reports failure.\<close>

definition sample_session :: "(document list, nat) session_state" where
  "sample_session =
     \<lparr>has_git_watcher = True,
      rag = [\<lparr>content = ''old text'', source = ''docs/api.md'', chunk_id = 0, metadata = []\<rparr>],
      index_calls = [],
      session_processor = DocumentProcessor 1000 200,
      last_update = None,
      shown_errors = []\<rparr>"

definition failed_pull :: "(document list, nat) collaborators" where
  "failed_pull =
     \<lparr>watcher_check_for_updates = Inr True,
      watcher_pull_updates = Inr False,
      watcher_get_changed_files = Inr [''docs/api.md''],
      rag_remove_documents = (\<lambda>files idx. (Inr (), filter (\<lambda>d. source d \<notin> set files) idx)),
      rag_index_documents = (\<lambda>docs idx. (Inr (), idx @ docs)),
      docs_repo_path = ''docs_repo'',
      time_now = 30\<rparr>"

text \<open>A network that answers every request with 404 and an HTML error page.\<close>

definition not_found :: response where
  "not_found =
     \<lparr>status_code = 404, cookies = [], headers = (\<lambda>h. None),
      iter_content = Inr [[0x3C, 0x68, 0x74, 0x6D, 0x6C, 0x3E]]\<rparr>"

definition not_found_network :: network where
  "not_found_network =
     \<lparr>mkdtemp = (\<lambda>prefix. Inr (''/tmp/'' @ prefix @ ''0'')),
      git_clone = (\<lambda>url dir. Inl CalledProcessError),
      http_get = (\<lambda>url params. Inr not_found),
      gettempdir = ''/tmp'',
      path_join = (\<lambda>dir file. dir @ ''/'' @ file),
      open_wb = (\<lambda>file. Inr ())\<rparr>"

section \<open>Facts about the string primitives\<close>

lemma rfind_scan_range:
  "rfind_scan s sub lo k = - 1 \<or> (lo \<le> rfind_scan s sub lo k \<and> rfind_scan s sub lo k < lo + int k)"
  by (induction k) auto

lemma rfind_window:
  fixes s sub :: "'a list"
  defines "n \<equiv> int (length s)"
  shows "rfind s sub st en = - 1 \<or>
     ((if st < 0 then max 0 (st + n) else st) \<le> rfind s sub st en \<and>
      rfind s sub st en + int (length sub)
        \<le> (if en > n then n else if en < 0 then max 0 (en + n) else en))"
proof -
  define m where "m = int (length sub)"
  define b where "b = (if en > n then n else if en < 0 then max 0 (en + n) else en)"
  define a where "a = (if st < 0 then max 0 (st + n) else st)"
  have unf: "rfind s sub st en = (if b - a < m then - 1 else rfind_scan s sub a (nat (b - a - m + 1)))"
    unfolding rfind_def Let_def a_def b_def m_def n_def by simp
  show ?thesis
  proof (cases "b - a < m")
    case True
    then show ?thesis by (simp add: unf)
  next
    case False
    define r where "r = rfind_scan s sub a (nat (b - a - m + 1))"
    have eq: "rfind s sub st en = r" using False by (simp add: unf r_def)
    have "r = - 1 \<or> (a \<le> r \<and> r < a + int (nat (b - a - m + 1)))"
      unfolding r_def by (rule rfind_scan_range)
    then have "r = - 1 \<or> (a \<le> r \<and> r + m \<le> b)" using False by auto
    then show ?thesis unfolding eq a_def b_def m_def by simp
  qed
qed

lemma rfind_range:
  "rfind s sub st en = - 1 \<or>
     (0 \<le> rfind s sub st en \<and> rfind s sub st en + int (length sub) \<le> int (length s))"
  using rfind_window[of s sub st en] by (auto split: if_splits)

lemma rfind_range_end:
  assumes "0 \<le> en" "en \<le> int (length s)"
  shows "rfind s sub st en = - 1 \<or>
     (0 \<le> rfind s sub st en \<and> rfind s sub st en + int (length sub) \<le> en)"
  using rfind_window[of s sub st en] assms by (auto split: if_splits)

lemma rfind_scan_absent:
  assumes "\<not> set sub \<subseteq> set s"
  shows "rfind_scan s sub lo k = - 1"
proof (induction k)
  case 0
  show ?case by simp
next
  case (Suc k)
  have "take (length sub) (drop (nat (lo + int k)) s) \<noteq> sub"
  proof
    assume "take (length sub) (drop (nat (lo + int k)) s) = sub"
    then have "set sub \<subseteq> set (drop (nat (lo + int k)) s)"
      using set_take_subset[of "length sub" "drop (nat (lo + int k)) s"] by simp
    with assms show False using set_drop_subset[of "nat (lo + int k)" s] by blast
  qed
  with Suc show ?case by simp
qed

lemma rfind_absent:
  assumes "\<not> set sub \<subseteq> set s"
  shows "rfind s sub st en = - 1"
  by (simp add: rfind_def Let_def rfind_scan_absent[OF assms])

lemma rfind_scan_highest:
  assumes "j < k"
    and "take (length sub) (drop (nat (lo + int j)) s) = sub"
    and "\<forall>i. j < i \<and> i < k \<longrightarrow> take (length sub) (drop (nat (lo + int i)) s) \<noteq> sub"
  shows "rfind_scan s sub lo k = lo + int j"
  using assms
proof (induction k)
  case 0
  then show ?case by simp
next
  case (Suc k)
  show ?case
  proof (cases "j = k")
    case True
    with Suc.prems show ?thesis by simp
  next
    case False
    with Suc.prems have "j < k" by simp
    moreover from Suc.prems False have "take (length sub) (drop (nat (lo + int k)) s) \<noteq> sub"
      by simp
    ultimately show ?thesis using Suc by simp
  qed
qed

lemma take_is_prefix_iff: "take (length sub) s = sub \<longleftrightarrow> prefix sub s"
  by (metis append_eq_conv_conj prefix_def take_is_prefix)

lemma contains_iff_sublist: "contains sub s \<longleftrightarrow> sublist sub s"
proof (induction s)
  case Nil
  show ?case by simp
next
  case (Cons c cs)
  have "contains sub (c # cs) \<longleftrightarrow> prefix sub (c # cs) \<or> contains sub cs"
    using take_is_prefix_iff[of sub "c # cs"] by simp
  with Cons show ?case by (simp add: sublist_Cons_right)
qed

lemma dropWhile_id: "xs = [] \<or> \<not> P (hd xs) \<Longrightarrow> dropWhile P xs = xs"
  by (cases xs) auto

lemma dropWhile_head: "dropWhile P xs = [] \<or> \<not> P (hd (dropWhile P xs))"
  using hd_dropWhile[of P xs] by blast

lemma dropWhile_last:
  "dropWhile P xs \<noteq> [] \<Longrightarrow> last (dropWhile P xs) = last xs"
  by (induction xs) auto

lemma strip_strip: "strip (strip s) = strip s"
proof -
  define u where "u = dropWhile isspace s"
  define w where "w = dropWhile isspace (rev u)"
  have s: "strip s = rev w" by (simp add: strip_def u_def w_def)
  have u: "u = [] \<or> \<not> isspace (hd u)" unfolding u_def by (rule dropWhile_head)
  have w: "w = [] \<or> \<not> isspace (hd w)" unfolding w_def by (rule dropWhile_head)
  have front: "dropWhile isspace (rev w) = rev w"
  proof (cases "w = []")
    case True
    then show ?thesis by simp
  next
    case False
    then have "last w = last (rev u)" unfolding w_def by (rule dropWhile_last)
    moreover from False have "u \<noteq> []" by (auto simp: w_def)
    ultimately have "last w = hd u" by (simp add: last_rev)
    with u \<open>u \<noteq> []\<close> False have "\<not> isspace (hd (rev w))" by (simp add: hd_rev)
    then show ?thesis by (intro dropWhile_id) simp
  qed
  have rear: "dropWhile isspace w = w" using w by (rule dropWhile_id)
  show ?thesis unfolding s by (simp add: strip_def front rear)
qed

section \<open>Facts about the chunking loop\<close>

lemma cut_point_past_end:
  "\<not> start + chunk_size p < int (length tx) \<Longrightarrow> cut_point p tx start = start + chunk_size p"
  by (simp add: cut_point_def Let_def)

lemma cut_point_before_end:
  assumes "start + chunk_size p < int (length tx)" and ne: "tx \<noteq> []"
  shows "cut_point p tx start < int (length tx)"
proof -
  define e where "e = start + chunk_size p"
  have r1: "rfind tx [CHR 0x0A, CHR 0x0A] start e < int (length tx)"
    using rfind_range[of tx "[CHR 0x0A, CHR 0x0A]" start e] by auto
  have r2: "rfind tx ''. '' start e + 1 < int (length tx)"
    using rfind_range[of tx "''. ''" start e] ne by auto
  have r3: "rfind tx '' '' start e < int (length tx)"
    using rfind_range[of tx "'' ''" start e] by auto
  show ?thesis
    using assms r1 r2 r3 unfolding cut_point_def Let_def e_def[symmetric] by simp
qed

lemma cut_point_range:
  assumes "start + chunk_size p < int (length tx)" and "0 \<le> start + chunk_size p"
    and "0 \<le> chunk_size p"
  shows "- 1 \<le> cut_point p tx start \<and> cut_point p tx start \<le> start + chunk_size p \<and>
         (0 \<le> start \<longrightarrow> start \<le> cut_point p tx start)"
proof -
  define e where "e = start + chunk_size p"
  have e: "0 \<le> e" "e \<le> int (length tx)" using assms by (simp_all add: e_def)
  have r1: "rfind tx [CHR 0x0A, CHR 0x0A] start e = - 1 \<or>
      (0 \<le> rfind tx [CHR 0x0A, CHR 0x0A] start e \<and> rfind tx [CHR 0x0A, CHR 0x0A] start e + 2 \<le> e)"
    using rfind_range_end[OF e, of "[CHR 0x0A, CHR 0x0A]" start] by simp
  have r2: "rfind tx ''. '' start e = - 1 \<or>
      (0 \<le> rfind tx ''. '' start e \<and> rfind tx ''. '' start e + 2 \<le> e)"
    using rfind_range_end[OF e, of "''. ''" start] by simp
  have r3: "rfind tx '' '' start e = - 1 \<or>
      (0 \<le> rfind tx '' '' start e \<and> rfind tx '' '' start e + 1 \<le> e)"
    using rfind_range_end[OF e, of "'' ''" start] by simp
  have c: "0 \<le> chunk_size p" by fact
  show ?thesis
    using assms(1) r1 r2 r3 e c unfolding cut_point_def Let_def e_def[symmetric]
    by (auto simp: e_def)
qed

lemma length_py_slice:
  "int (length (py_slice xs i j))
     \<le> max 0 (slice_index (int (length xs)) j - slice_index (int (length xs)) i)"
  by (simp add: py_slice_def Let_def)

lemma length_strip: "length (strip s) \<le> length s"
proof -
  have "length (strip s) \<le> length (dropWhile isspace s)"
    unfolding strip_def using length_dropWhile_le[of isspace "rev (dropWhile isspace s)"] by simp
  also have "\<dots> \<le> length s" by (rule length_dropWhile_le)
  finally show ?thesis .
qed

lemma span_bound:
  assumes cs: "0 \<le> chunk_size p" and long: "chunk_size p < int (length tx)"
    and lo: "- chunk_size p \<le> start" and hi: "start < int (length tx)"
  shows "int (length (py_slice tx start (cut_point p tx start))) \<le> chunk_size p"
proof (cases "start + chunk_size p < int (length tx)")
  case False
  then have e: "cut_point p tx start = start + chunk_size p" by (rule cut_point_past_end)
  from False long have "0 < start" by simp
  with False hi cs show ?thesis
    using length_py_slice[of tx start "start + chunk_size p"]
    by (simp add: e slice_index_def)
next
  case True
  have "0 \<le> start + chunk_size p" using lo by simp
  from cut_point_range[OF True this cs]
  have r: "- 1 \<le> cut_point p tx start" "cut_point p tx start \<le> start + chunk_size p"
    "0 \<le> start \<longrightarrow> start \<le> cut_point p tx start" by simp_all
  show ?thesis
    using length_py_slice[of tx start "cut_point p tx start"] r True cs long lo hi
    by (auto simp: slice_index_def split: if_splits)
qed

lemma next_start_lower:
  assumes cs: "0 \<le> chunk_size p" and long: "chunk_size p < int (length tx)"
    and lo: "- chunk_size p \<le> start" and hi: "start < int (length tx)"
    and ov: "chunk_overlap p < chunk_size p"
  shows "- chunk_size p \<le> next_start p tx (cut_point p tx start)"
proof (cases "start + chunk_size p < int (length tx)")
  case False
  then have e: "cut_point p tx start = start + chunk_size p" by (rule cut_point_past_end)
  with False cs long show ?thesis by (simp add: next_start_def)
next
  case True
  have "0 \<le> start + chunk_size p" using lo by simp
  from cut_point_range[OF True this cs]
  have r: "- 1 \<le> cut_point p tx start" "cut_point p tx start \<le> start + chunk_size p"
    "0 \<le> start \<longrightarrow> start \<le> cut_point p tx start" by simp_all
  show ?thesis using r ov cs by (auto simp: next_start_def)
qed

lemma emit_bounded:
  assumes "\<forall>c\<in>set chunks. int (length c) \<le> k" and "int (length chunk) \<le> k"
  shows "\<forall>c\<in>set (emit chunks chunk). int (length c) \<le> k"
  using assms by (simp add: emit_def)

lemma split_loop_bounded:
  assumes run: "split_loop p tx start chunks = Some y"
    and pre: "0 \<le> chunk_size p" "chunk_size p < int (length tx)"
         "chunk_overlap p < chunk_size p" "- chunk_size p \<le> start"
         "\<forall>c\<in>set chunks. int (length c) \<le> chunk_size p"
  shows "\<forall>c\<in>set y. int (length c) \<le> chunk_size p"
proof -
  let ?P = "\<lambda>p tx start chunks y.
      0 \<le> chunk_size p \<longrightarrow> chunk_size p < int (length tx) \<longrightarrow>
      chunk_overlap p < chunk_size p \<longrightarrow> - chunk_size p \<le> start \<longrightarrow>
      (\<forall>c\<in>set chunks. int (length c) \<le> chunk_size p) \<longrightarrow>
      (\<forall>c\<in>set y. int (length c) \<le> chunk_size p)"
  have "?P p tx start chunks y"
  proof (rule split_loop.raw_induct[where P = ?P, OF _ run], intro impI)
    fix f p tx start chunks y
    assume IH: "\<And>p tx start chunks y. f p tx start chunks = Some y \<Longrightarrow> ?P p tx start chunks y"
      and step: "(if start < int (length tx)
                  then f p tx (next_start p tx (cut_point p tx start))
                        (emit chunks (strip (py_slice tx start (cut_point p tx start))))
                  else Some chunks) = Some y"
      and cs: "0 \<le> chunk_size p" and long: "chunk_size p < int (length tx)"
      and ov: "chunk_overlap p < chunk_size p" and lo: "- chunk_size p \<le> start"
      and acc: "\<forall>c\<in>set chunks. int (length c) \<le> chunk_size p"
    show "\<forall>c\<in>set y. int (length c) \<le> chunk_size p"
    proof (cases "start < int (length tx)")
      case False
      with step acc show ?thesis by simp
    next
      case True
      let ?e = "cut_point p tx start"
      let ?chunk = "strip (py_slice tx start ?e)"
      from True step
      have next_run: "f p tx (next_start p tx ?e) (emit chunks ?chunk) = Some y" by simp
      have "int (length ?chunk) \<le> int (length (py_slice tx start ?e))"
        using length_strip[of "py_slice tx start ?e"] by simp
      also have "\<dots> \<le> chunk_size p"
        using cs long lo True by (rule span_bound)
      finally have small: "int (length ?chunk) \<le> chunk_size p" .
      have lo': "- chunk_size p \<le> next_start p tx ?e"
        using cs long lo True ov by (rule next_start_lower)
      have acc': "\<forall>c\<in>set (emit chunks ?chunk). int (length c) \<le> chunk_size p"
        using acc small by (rule emit_bounded)
      from IH[OF next_run] cs long ov lo' acc' show ?thesis by blast
    qed
  qed
  with pre show ?thesis by blast
qed

lemma split_loop_no_progress:
  assumes run: "split_loop p tx start chunks = Some y"
  shows "\<not> (tx \<noteq> [] \<and> 0 \<le> chunk_size p \<and> chunk_size p \<le> chunk_overlap p \<and>
            start + chunk_size p < int (length tx))"
proof -
  let ?P = "\<lambda>p tx start (chunks :: string list) (y :: string list).
      \<not> (tx \<noteq> [] \<and> 0 \<le> chunk_size p \<and> chunk_size p \<le> chunk_overlap p \<and>
            start + chunk_size p < int (length tx))"
  show ?thesis
  proof (rule split_loop.raw_induct[where P = ?P, OF _ run], rule notI)
    fix f p tx start chunks y
    assume IH: "\<And>p tx start chunks y. f p tx start chunks = Some y \<Longrightarrow> ?P p tx start chunks y"
      and step: "(if start < int (length tx)
                  then f p tx (next_start p tx (cut_point p tx start))
                        (emit chunks (strip (py_slice tx start (cut_point p tx start))))
                  else Some chunks) = Some y"
      and a: "tx \<noteq> [] \<and> 0 \<le> chunk_size p \<and> chunk_size p \<le> chunk_overlap p \<and>
            start + chunk_size p < int (length tx)"
    let ?e = "cut_point p tx start"
    from a have lt: "start < int (length tx)" by simp
    with step
    have next_run: "f p tx (next_start p tx ?e) (emit chunks (strip (py_slice tx start ?e))) = Some y"
      by simp
    have "?e < int (length tx)" using a by (simp add: cut_point_before_end)
    with a have "tx \<noteq> [] \<and> 0 \<le> chunk_size p \<and> chunk_size p \<le> chunk_overlap p \<and>
            next_start p tx ?e + chunk_size p < int (length tx)"
      by (simp add: next_start_def)
    with IH[OF next_run] show False by blast
  qed
qed

lemma split_loop_stall:
  assumes lt: "start < int (length tx)"
    and again: "next_start p tx (cut_point p tx start) = start"
  shows "split_loop p tx start chunks = None"
proof (cases "split_loop p tx start chunks")
  case None
  then show ?thesis .
next
  case (Some y)
  let ?P = "\<lambda>p' tx' start' (chunks' :: string list) (y :: string list).
      \<not> (p' = p \<and> tx' = tx \<and> start' = start)"
  have "?P p tx start chunks y"
  proof (rule split_loop.raw_induct[where P = ?P, OF _ Some], rule notI)
    fix f p' tx' start' chunks' y
    assume IH: "\<And>p' tx' start' chunks' y. f p' tx' start' chunks' = Some y \<Longrightarrow> ?P p' tx' start' chunks' y"
      and step: "(if start' < int (length tx')
                  then f p' tx' (next_start p' tx' (cut_point p' tx' start'))
                        (emit chunks' (strip (py_slice tx' start' (cut_point p' tx' start'))))
                  else Some chunks') = Some y"
      and a: "p' = p \<and> tx' = tx \<and> start' = start"
    from a lt again step
    have "f p tx start (emit chunks' (strip (py_slice tx start (cut_point p tx start)))) = Some y"
      by simp
    from IH[OF this] show False by simp
  qed
  then show ?thesis by simp
qed


lemma emit_nonblank:
  assumes "\<forall>c\<in>set chunks. strip c \<noteq> []"
  shows "\<forall>c\<in>set (emit chunks (strip s)). strip c \<noteq> []"
  using assms by (simp add: emit_def strip_strip)

lemma split_loop_nonblank:
  assumes run: "split_loop p tx start chunks = Some y"
    and acc: "\<forall>c\<in>set chunks. strip c \<noteq> []"
  shows "\<forall>c\<in>set y. strip c \<noteq> []"
proof -
  let ?P = "\<lambda>(p :: processor) (tx :: string) (start :: int) chunks y.
      (\<forall>c\<in>set chunks. strip c \<noteq> []) \<longrightarrow> (\<forall>c\<in>set y. strip c \<noteq> [])"
  have "?P p tx start chunks y"
  proof (rule split_loop.raw_induct[where P = ?P, OF _ run], intro impI)
    fix f p tx start chunks y
    assume IH: "\<And>p tx start chunks y. f p tx start chunks = Some y \<Longrightarrow> ?P p tx start chunks y"
      and step: "(if start < int (length tx)
                  then f p tx (next_start p tx (cut_point p tx start))
                        (emit chunks (strip (py_slice tx start (cut_point p tx start))))
                  else Some chunks) = Some y"
      and acc: "\<forall>c\<in>set chunks. strip c \<noteq> []"
    show "\<forall>c\<in>set y. strip c \<noteq> []"
    proof (cases "start < int (length tx)")
      case False
      with step acc show ?thesis by simp
    next
      case True
      with step
      have "f p tx (next_start p tx (cut_point p tx start))
              (emit chunks (strip (py_slice tx start (cut_point p tx start)))) = Some y"
        by simp
      from IH[OF this] emit_nonblank[OF acc] show ?thesis by blast
    qed
  qed
  with acc show ?thesis by blast
qed

lemma split_text_long_nonblank:
  assumes "chunk_size p < int (length tx)" and "split_text p tx = Some chunks"
  shows "\<forall>c\<in>set chunks. strip c \<noteq> []"
proof -
  from assms have "split_loop p tx 0 [] = Some chunks" by (simp add: split_text_def)
  then show ?thesis by (rule split_loop_nonblank) simp
qed

lemma split_text_short:
  "int (length tx) \<le> chunk_size p \<Longrightarrow> split_text p tx = Some [tx]"
  by (simp add: split_text_def)

section \<open>The claims about \<open>split_text\<close>\<close>

text \<open>
  C10, as amended: for every configuration with \<open>0 \<le> chunk_size\<close>, whenever
  \<open>split_text\<close> returns, every chunk of the returned list has length at most
  \<open>chunk_size\<close>.  Nothing is asked of \<open>chunk_overlap\<close>: with an overlap of
  \<open>chunk_size\<close> or more the loop does not return on a text longer than \<open>chunk_size\<close>.
\<close>

theorem split_text_bounded:
  assumes cs: "0 \<le> chunk_size p" and ret: "split_text p tx = Some chunks"
  shows "\<forall>c\<in>set chunks. int (length c) \<le> chunk_size p"
proof (cases "int (length tx) \<le> chunk_size p")
  case True
  with ret show ?thesis by (auto simp: split_text_def)
next
  case False
  with ret have run: "split_loop p tx 0 [] = Some chunks" by (simp add: split_text_def)
  show ?thesis
  proof (cases "chunk_overlap p < chunk_size p")
    case True
    from run show ?thesis
      by (rule split_loop_bounded) (use cs False True in auto)
  next
    case ge: False
    from split_loop_no_progress[OF run] cs False ge show ?thesis by auto
  qed
qed

theorem split_text_bounded_witness:
  "0 \<le> chunk_size (DocumentProcessor 10 2) \<and>
   split_text (DocumentProcessor 10 2) ''a bcccccc ccccc'' = Some [''a bcccccc'', ''cc ccccc''] \<and>
   int (length ''a bcccccc'') \<le> chunk_size (DocumentProcessor 10 2) \<and>
   int (length ''cc ccccc'') \<le> chunk_size (DocumentProcessor 10 2)"
proof -
  have cs: "0 \<le> chunk_size (DocumentProcessor 10 2)"
    by (simp add: DocumentProcessor_def)
  have ret: "split_text (DocumentProcessor 10 2) ''a bcccccc ccccc''
      = Some [''a bcccccc'', ''cc ccccc'']"
    by (simp add: split_text_def split_loop.simps cut_point_def next_start_def emit_def
        strip_def isspace_def py_slice_def slice_index_def rfind_def DocumentProcessor_def
        eval_nat_numeral)
  from split_text_bounded[OF cs ret] cs ret show ?thesis by simp
qed

text \<open>
  Without \<open>0 \<le> chunk_size\<close> the bound fails.  With \<open>chunk_size = -1\<close> and
  \<open>chunk_overlap = -3\<close> the text \<open>abcd\<close> is longer than \<open>chunk_size\<close>; the first iteration
  has \<open>end = -1\<close>, finds no break and emits \<open>text[0:-1]\<close>, three characters; \<open>start\<close>
  becomes \<open>-1 + 3 = 2\<close>, the second iteration emits nothing and ends the loop at
  \<open>start = 4\<close>.
\<close>

theorem split_text_negative_size_counterexample:
  "split_text (DocumentProcessor (- 1) (- 3)) ''abcd'' = Some [''abc''] \<and>
   chunk_size (DocumentProcessor (- 1) (- 3)) < int (length ''abc'')"
  by (simp add: split_text_def split_loop.simps cut_point_def next_start_def emit_def
      strip_def isspace_def py_slice_def slice_index_def rfind_def DocumentProcessor_def
      eval_nat_numeral)

lemma blank_then_word_length: "length blank_then_word = 1201"
  by (simp add: blank_then_word_def)

lemma blank_then_word_set: "set blank_then_word = {CHR '' '', CHR ''c''}"
  by (auto simp: blank_then_word_def)

lemma blank_then_word_at:
  "i < 1201 \<Longrightarrow> take 1 (drop i blank_then_word) = [if i < 201 then CHR '' '' else CHR ''c'']"
proof -
  assume "i < 1201"
  then have "i < length blank_then_word" by (simp add: blank_then_word_length)
  then have "take 1 (drop i blank_then_word) = [blank_then_word ! i]"
    by (simp add: take_Suc_conv_app_nth)
  also have "blank_then_word ! i = (if i < 201 then CHR '' '' else CHR ''c'')"
    using \<open>i < 1201\<close> by (simp add: blank_then_word_def nth_append)
  finally show ?thesis .
qed

lemma blank_then_word_cut:
  "cut_point (DocumentProcessor 1000 200) blank_then_word 0 = 200"
proof -
  have nl: "rfind blank_then_word [CHR 0x0A, CHR 0x0A] 0 1000 = - 1"
    by (rule rfind_absent) (simp add: blank_then_word_set)
  have dot: "rfind blank_then_word ''. '' 0 1000 = - 1"
    by (rule rfind_absent) (simp add: blank_then_word_set)
  have "rfind_scan blank_then_word '' '' 0 1000 = 0 + int 200"
  proof (rule rfind_scan_highest)
    show "(200::nat) < 1000" by simp
    show "take (length '' '') (drop (nat (0 + int 200)) blank_then_word) = '' ''"
      using blank_then_word_at[of 200] by simp
    show "\<forall>i. 200 < i \<and> i < 1000 \<longrightarrow>
             take (length '' '') (drop (nat (0 + int i)) blank_then_word) \<noteq> '' ''"
      using blank_then_word_at by simp
  qed
  then have sp: "rfind blank_then_word '' '' 0 1000 = 200"
    by (simp add: rfind_def blank_then_word_length)
  show ?thesis
    by (simp add: cut_point_def DocumentProcessor_def blank_then_word_length nl dot sp)
qed

text \<open>
  C1: for every text and every configuration with \<open>overlap < chunk_size\<close>,
  \<open>split_text\<close> terminates and \<open>start\<close> strictly increases from one iteration to the
  next.  The code does not do this, already in its default configuration
  (\<open>chunk_size = 1000\<close>, \<open>chunk_overlap = 200\<close>): on 201 spaces followed by 1000 letters
  the first iteration finds no paragraph or sentence break, cuts at the last space, at
  offset 200, drops the empty chunk and sets \<open>start\<close> to \<open>200 - 200 = 0\<close>.  The loop is
  in the state it started from, and \<open>split_text\<close> does not return.
\<close>

theorem split_text_stalls_default:
  "chunk_overlap (DocumentProcessor 1000 200) < chunk_size (DocumentProcessor 1000 200) \<and>
   next_start (DocumentProcessor 1000 200) blank_then_word
     (cut_point (DocumentProcessor 1000 200) blank_then_word 0) = 0 \<and>
   split_text (DocumentProcessor 1000 200) blank_then_word = None"
proof -
  let ?p = "DocumentProcessor 1000 200"
  have cfg: "chunk_size ?p = 1000" "chunk_overlap ?p = 200"
    by (simp_all add: DocumentProcessor_def)
  have same: "next_start ?p blank_then_word (cut_point ?p blank_then_word 0) = 0"
    by (simp add: blank_then_word_cut next_start_def blank_then_word_length cfg)
  have lt: "(0::int) < int (length blank_then_word)" by (simp add: blank_then_word_length)
  have "split_loop ?p blank_then_word 0 [] = None"
    using lt same by (rule split_loop_stall)
  then have "split_text ?p blank_then_word = None"
    by (simp add: split_text_def cfg blank_then_word_length)
  with same cfg show ?thesis by simp
qed

text \<open>The same on a small scale: \<open>chunk_size = 10\<close>, \<open>chunk_overlap = 1\<close>.\<close>

lemma split_text_stalls_small:
  "chunk_overlap (DocumentProcessor 10 1) < chunk_size (DocumentProcessor 10 1) \<and>
   next_start (DocumentProcessor 10 1) ''  cccccccccccccccccccc''
     (cut_point (DocumentProcessor 10 1) ''  cccccccccccccccccccc'' 0) = 0 \<and>
   split_text (DocumentProcessor 10 1) ''  cccccccccccccccccccc'' = None"
proof -
  let ?p = "DocumentProcessor 10 1"
  let ?t = "''  cccccccccccccccccccc''"
  have same: "next_start ?p ?t (cut_point ?p ?t 0) = 0"
    by (simp add: cut_point_def next_start_def rfind_def DocumentProcessor_def eval_nat_numeral)
  have lt: "(0::int) < int (length ?t)" by simp
  have "split_loop ?p ?t 0 [] = None"
    using lt same by (rule split_loop_stall)
  then have "split_text ?p ?t = None"
    by (simp add: split_text_def DocumentProcessor_def)
  with same show ?thesis by (simp add: DocumentProcessor_def)
qed


text \<open>
  On a heading followed by a long paragraph the offset goes backwards: the only
  paragraph break is at offset 7, so the first cut is there and \<open>start\<close> becomes
  \<open>7 - 200 = -193\<close>.  From a negative \<open>start\<close> the search window of \<open>rfind\<close> lies
  near the end of the text and is empty; \<open>rfind\<close> returns \<open>-1\<close>, which passes the test
  \<open>> start\<close>, so \<open>end = -1\<close> and \<open>start = -201\<close>, where the loop stays for good.
\<close>

lemma heading_length: "length heading_then_paragraph = 1209"
  by (simp add: heading_then_paragraph_def)

lemma heading_break: "take 2 (drop 7 heading_then_paragraph) = [CHR 0x0A, CHR 0x0A]"
  by (simp add: heading_then_paragraph_def)

lemma heading_tail:
  assumes "9 \<le> j" and "j < 1209"
  shows "heading_then_paragraph ! j = CHR ''x''"
proof -
  define pre where "pre = ''# Title'' @ [CHR 0x0A, CHR 0x0A]"
  have l: "length pre = 9" by (simp add: pre_def)
  have "heading_then_paragraph = pre @ replicate 1200 (CHR ''x'')"
    by (simp add: heading_then_paragraph_def pre_def)
  then have "heading_then_paragraph ! j = (pre @ replicate 1200 (CHR ''x'')) ! j" by simp
  also have "\<dots> = replicate 1200 (CHR ''x'') ! (j - 9)"
    using assms l by (simp add: nth_append)
  also have "\<dots> = CHR ''x''" using assms by simp
  finally show ?thesis .
qed

lemma heading_no_later_break:
  assumes "7 < i" and "i < 999"
  shows "take 2 (drop i heading_then_paragraph) \<noteq> [CHR 0x0A, CHR 0x0A]"
proof
  assume eq: "take 2 (drop i heading_then_paragraph) = [CHR 0x0A, CHR 0x0A]"
  have len: "Suc i < length heading_then_paragraph" using assms by (simp add: heading_length)
  have "take 2 (drop i heading_then_paragraph) ! 1 = heading_then_paragraph ! (Suc i)"
    using len by simp
  also have "\<dots> = CHR ''x''" using assms by (intro heading_tail) simp_all
  finally show False using eq by simp
qed

lemma heading_first_cut:
  "cut_point (DocumentProcessor 1000 200) heading_then_paragraph 0 = 7"
proof -
  have "rfind_scan heading_then_paragraph [CHR 0x0A, CHR 0x0A] 0 999 = 0 + int 7"
  proof (rule rfind_scan_highest)
    show "(7::nat) < 999" by simp
    show "take (length [CHR 0x0A, CHR 0x0A]) (drop (nat (0 + int 7)) heading_then_paragraph)
            = [CHR 0x0A, CHR 0x0A]"
      using heading_break by (simp add: numeral_2_eq_2)
    show "\<forall>i. 7 < i \<and> i < 999 \<longrightarrow>
            take (length [CHR 0x0A, CHR 0x0A]) (drop (nat (0 + int i)) heading_then_paragraph)
              \<noteq> [CHR 0x0A, CHR 0x0A]"
      using heading_no_later_break by (simp add: numeral_2_eq_2)
  qed
  then have "rfind heading_then_paragraph [CHR 0x0A, CHR 0x0A] 0 1000 = 7"
    by (simp add: rfind_def heading_length)
  then show ?thesis
    by (simp add: cut_point_def DocumentProcessor_def heading_length)
qed

lemma heading_negative_cut:
  assumes "start = - 193 \<or> start = - 201"
  shows "cut_point (DocumentProcessor 1000 200) heading_then_paragraph start = - 1"
  using assms by (auto simp: cut_point_def DocumentProcessor_def heading_length rfind_def)

lemma split_text_regresses:
  "next_start (DocumentProcessor 1000 200) heading_then_paragraph
     (cut_point (DocumentProcessor 1000 200) heading_then_paragraph 0) = - 193 \<and>
   next_start (DocumentProcessor 1000 200) heading_then_paragraph
     (cut_point (DocumentProcessor 1000 200) heading_then_paragraph (- 193)) = - 201 \<and>
   next_start (DocumentProcessor 1000 200) heading_then_paragraph
     (cut_point (DocumentProcessor 1000 200) heading_then_paragraph (- 201)) = - 201 \<and>
   split_text (DocumentProcessor 1000 200) heading_then_paragraph = None"
proof -
  let ?p = "DocumentProcessor 1000 200"
  let ?t = "heading_then_paragraph"
  have cfg: "chunk_size ?p = 1000" "chunk_overlap ?p = 200"
    by (simp_all add: DocumentProcessor_def)
  have s1: "next_start ?p ?t (cut_point ?p ?t 0) = - 193"
    by (simp add: heading_first_cut next_start_def heading_length cfg)
  have s2: "next_start ?p ?t (cut_point ?p ?t (- 193)) = - 201"
    by (simp add: heading_negative_cut next_start_def heading_length cfg)
  have s3: "next_start ?p ?t (cut_point ?p ?t (- 201)) = - 201"
    by (simp add: heading_negative_cut next_start_def heading_length cfg)
  have stuck: "split_loop ?p ?t (- 201) chunks = None" for chunks
    by (rule split_loop_stall) (simp_all add: s3)
  have "split_loop ?p ?t 0 [] = None"
    by (subst split_loop.simps, simp add: heading_length s1 del: One_nat_def,
        subst split_loop.simps, simp add: heading_length s2 stuck)
  then have "split_text ?p ?t = None"
    by (simp add: split_text_def cfg heading_length)
  with s1 s2 s3 show ?thesis by simp
qed


text \<open>
  C4: a text no longer than \<open>chunk_size\<close> comes back as exactly one chunk, the trimmed
  text.  The code returns the text as it is: one chunk, but not trimmed.
\<close>

theorem short_text_not_trimmed:
  "split_text (DocumentProcessor 1000 200) '' a'' = Some ['' a''] \<and> strip '' a'' = ''a''"
  by (simp add: split_text_def DocumentProcessor_def strip_def isspace_def)

text \<open>
  C5: every chunk returned is non-empty after trimming, whitespace-only texts included.
  The short-text return emits a whitespace-only text as a chunk.
\<close>

theorem blank_text_emitted:
  "split_text (DocumentProcessor 1000 200) '' '' = Some ['' ''] \<and> strip '' '' = []"
  by (simp add: split_text_def DocumentProcessor_def strip_def isspace_def)

section \<open>The claim about change matching\<close>

lemma in_any_iff: "in_any changed_files src \<longleftrightarrow> (\<exists>c\<in>set changed_files. sublist c src)"
  by (induction changed_files) (auto simp: contains_iff_sublist)

lemma filter_changed_documents_eq:
  "filter_changed_documents all_docs changed_files
     = filter (\<lambda>doc. \<exists>c\<in>set changed_files. sublist c (source doc)) all_docs"
  by (induction all_docs) (simp_all add: in_any_iff)

text \<open>
  C2: a document is selected if and only if its source equals one of the changed-file
  identifiers; never because an identifier is a substring of the source.  The code
  tests \<open>changed_file in doc.source\<close>: the document of \<open>legacy/docs/api.md\<close> is selected
  for the changed file \<open>docs/api.md\<close>.
\<close>

theorem filter_selects_on_substring:
  "filter_changed_documents
     [\<lparr>content = ''x'', source = ''legacy/docs/api.md'', chunk_id = 0, metadata = []\<rparr>]
     [''docs/api.md'']
   = [\<lparr>content = ''x'', source = ''legacy/docs/api.md'', chunk_id = 0, metadata = []\<rparr>] \<and>
   ''legacy/docs/api.md'' \<noteq> ''docs/api.md''"
  by simp

section \<open>The claim about a failed pull\<close>

text \<open>
  C3: in a cycle whose pull step reports failure, nothing is removed from or added to the
  index and the cycle returns failure.  The session state after the cycle is the state
  before it: the index \<open>rag\<close>, the record \<open>index_calls\<close> of the calls issued against it,
  and \<open>last_update\<close> are all unchanged, and the result is \<open>False\<close>.
\<close>

theorem pull_failure_aborts:
  assumes "has_git_watcher s"
    and "watcher_check_for_updates c = Inr True"
    and "watcher_pull_updates c = Inr False"
  shows "check_for_updates c env s = Some (False, s)"
  using assms by (simp add: check_for_updates_def)

theorem pull_failure_aborts_witness:
  "has_git_watcher sample_session \<and>
   watcher_check_for_updates failed_pull = Inr True \<and>
   watcher_pull_updates failed_pull = Inr False \<and>
   check_for_updates failed_pull (one_file_environment ''notes.txt'' crlf_bytes) sample_session
     = Some (False, sample_session)"
proof -
  have a: "has_git_watcher sample_session" by (simp add: sample_session_def)
  have b: "watcher_check_for_updates failed_pull = Inr True" by (simp add: failed_pull_def)
  have c: "watcher_pull_updates failed_pull = Inr False" by (simp add: failed_pull_def)
  from pull_failure_aborts[OF a b c, of "one_file_environment ''notes.txt'' crlf_bytes"] a b c
  show ?thesis by simp
qed

text \<open>
  When the pull raises instead, the handler shows the error and the cycle returns
  \<open>False\<close>; the index and the calls issued against it are unchanged as well.
\<close>

lemma pull_exception_aborts:
  assumes "has_git_watcher s"
    and "watcher_check_for_updates c = Inr True"
    and "watcher_pull_updates c = Inl e"
  shows "\<exists>s'. check_for_updates c env s = Some (False, s') \<and> rag s' = rag s \<and>
           index_calls s' = index_calls s \<and> last_update s' = last_update s"
  using assms by (simp add: check_for_updates_def st_error_def)

section \<open>The claim about chunk metadata\<close>

lemma enumerate_ids:
  "map (\<lambda>(idx, chunk). int idx) (enumerate 0 chunks) = map int [0..<length chunks]"
  by (rule nth_equalityI) (simp_all add: nth_enumerate_eq)

lemma load_document_batch:
  assumes "load_document p env file_path = Some docs"
  shows "map chunk_id docs = map int [0..<length docs] \<and>
         (\<forall>d\<in>set docs.
            map_of (metadata d) ''total_chunks'' = Some (PyInt (int (length docs))) \<and>
            map_of (metadata d) ''chunk_index'' = Some (PyInt (chunk_id d)))"
proof (cases "extract_content env file_path = []")
  case True
  with assms show ?thesis by (simp add: load_document_def Let_def)
next
  case False
  with assms obtain chunks where
    docs: "docs = map (\<lambda>(idx, chunk).
                     \<lparr>content = chunk,
                      source = path_str file_path,
                      chunk_id = int idx,
                      metadata =
                        [(''file_name'', PyStr (path_name file_path)),
                         (''file_type'', PyStr (path_suffix file_path)),
                         (''chunk_index'', PyInt (int idx)),
                         (''total_chunks'', PyInt (int (length chunks)))]\<rparr>)
                   (enumerate 0 chunks)"
    by (auto simp: load_document_def Let_def split: option.splits)
  have len: "length docs = length chunks" by (simp add: docs)
  have ids: "map chunk_id docs = map int [0..<length chunks]"
    unfolding docs using enumerate_ids[of chunks] by (simp add: case_prod_unfold comp_def)
  have meta: "\<forall>d\<in>set docs.
            map_of (metadata d) ''total_chunks'' = Some (PyInt (int (length chunks))) \<and>
            map_of (metadata d) ''chunk_index'' = Some (PyInt (chunk_id d))"
    unfolding docs by auto
  from ids meta len show ?thesis by simp
qed

lemma load_uploaded_file_batch:
  assumes "load_uploaded_file p env uploaded_file filename = Some docs"
  shows "map chunk_id docs = map int [0..<length docs] \<and>
         (\<forall>d\<in>set docs.
            map_of (metadata d) ''total_chunks'' = Some (PyInt (int (length docs))) \<and>
            map_of (metadata d) ''chunk_index'' = Some (PyInt (chunk_id d)))"
proof (cases uploaded_file)
  case (Inl e)
  with assms show ?thesis by (simp add: load_uploaded_file_def)
next
  case (Inr file_bytes)
  show ?thesis
  proof (cases "extract_content_from_bytes env file_bytes (lower (path_suffix filename))
                  (path_str filename) = []")
    case True
    with assms Inr show ?thesis by (simp add: load_uploaded_file_def Let_def)
  next
    case False
    with assms Inr obtain chunks where
      docs: "docs = map (\<lambda>(idx, chunk).
                          \<lparr>content = chunk,
                           source = path_str filename,
                           chunk_id = int idx,
                           metadata =
                             [(''file_name'', PyStr (path_str filename)),
                              (''file_type'', PyStr (lower (path_suffix filename))),
                              (''chunk_index'', PyInt (int idx)),
                              (''total_chunks'', PyInt (int (length chunks))),
                              (''upload_type'', PyStr ''direct_upload'')]\<rparr>)
                        (enumerate 0 chunks)"
      by (auto simp: load_uploaded_file_def Let_def split: option.splits)
    have len: "length docs = length chunks" by (simp add: docs)
    have ids: "map chunk_id docs = map int [0..<length chunks]"
      unfolding docs using enumerate_ids[of chunks] by (simp add: case_prod_unfold comp_def)
    have meta: "\<forall>d\<in>set docs.
              map_of (metadata d) ''total_chunks'' = Some (PyInt (int (length chunks))) \<and>
              map_of (metadata d) ''chunk_index'' = Some (PyInt (chunk_id d))"
      unfolding docs by auto
    from ids meta len show ?thesis by simp
  qed
qed

text \<open>
  C6: the chunks that one pass of \<open>load_document\<close> or \<open>load_uploaded_file\<close> returns have
  the chunk ids \<open>0, 1, ..., n - 1\<close> in order, where \<open>n\<close> is their number; each carries
  \<open>total_chunks = n\<close> and a \<open>chunk_index\<close> equal to its \<open>chunk_id\<close>.
\<close>

theorem batch_metadata:
  assumes "load_document p env file_path = Some docs \<or>
           load_uploaded_file p env uploaded_file filename = Some docs"
  shows "map chunk_id docs = map int [0..<length docs] \<and>
         (\<forall>d\<in>set docs.
            map_of (metadata d) ''total_chunks'' = Some (PyInt (int (length docs))) \<and>
            map_of (metadata d) ''chunk_index'' = Some (PyInt (chunk_id d)))"
  using assms load_document_batch load_uploaded_file_batch by blast

lemma words_text:
  "ascii_decode words_bytes = Inr ''a bcccccc ccccc''"
  by (simp add: ascii_decode_def words_bytes_def char_of_def bit_Suc_0_iff)

lemma words_split:
  "split_text (DocumentProcessor 10 2) ''a bcccccc ccccc'' = Some [''a bcccccc'', ''cc ccccc'']"
    by (simp add: split_text_def split_loop.simps cut_point_def next_start_def emit_def
        strip_def isspace_def py_slice_def slice_index_def rfind_def DocumentProcessor_def
        eval_nat_numeral)

lemma words_loaded:
  "load_document (DocumentProcessor 10 2) (one_file_environment ''words.txt'' words_bytes) words_txt
   = Some [\<lparr>content = ''a bcccccc'', source = ''words.txt'', chunk_id = 0,
            metadata = [(''file_name'', PyStr ''words.txt''), (''file_type'', PyStr ''.txt''),
                        (''chunk_index'', PyInt 0), (''total_chunks'', PyInt 2)]\<rparr>,
           \<lparr>content = ''cc ccccc'', source = ''words.txt'', chunk_id = 1,
            metadata = [(''file_name'', PyStr ''words.txt''), (''file_type'', PyStr ''.txt''),
                        (''chunk_index'', PyInt 1), (''total_chunks'', PyInt 2)]\<rparr>]"
proof -
  have "extract_content (one_file_environment ''words.txt'' words_bytes) words_txt
      = ''a bcccccc ccccc''"
    by (simp add: extract_content_def read_text_def one_file_environment_def words_txt_def
        words_text lower_def lower_char_def)
  then show ?thesis
    by (simp add: load_document_def words_split words_txt_def enumerate_eq_zip eval_nat_numeral
        Let_def)
qed

lemma words_uploaded:
  "load_uploaded_file (DocumentProcessor 10 2) (one_file_environment ''words.txt'' words_bytes)
      (Inr words_bytes) words_txt
   = Some [\<lparr>content = ''a bcccccc'', source = ''words.txt'', chunk_id = 0,
            metadata = [(''file_name'', PyStr ''words.txt''), (''file_type'', PyStr ''.txt''),
                        (''chunk_index'', PyInt 0), (''total_chunks'', PyInt 2),
                        (''upload_type'', PyStr ''direct_upload'')]\<rparr>,
           \<lparr>content = ''cc ccccc'', source = ''words.txt'', chunk_id = 1,
            metadata = [(''file_name'', PyStr ''words.txt''), (''file_type'', PyStr ''.txt''),
                        (''chunk_index'', PyInt 1), (''total_chunks'', PyInt 2),
                        (''upload_type'', PyStr ''direct_upload'')]\<rparr>]"
proof -
  have "extract_content_from_bytes (one_file_environment ''words.txt'' words_bytes) words_bytes
          ''.txt'' ''words.txt'' = ''a bcccccc ccccc''"
    by (simp add: extract_content_from_bytes_def one_file_environment_def words_text)
  then show ?thesis
    by (simp add: load_uploaded_file_def words_split words_txt_def enumerate_eq_zip
        eval_nat_numeral lower_def lower_char_def Let_def)
qed

theorem batch_metadata_witness:
  "load_document (DocumentProcessor 10 2) (one_file_environment ''words.txt'' words_bytes) words_txt
     \<noteq> None \<and>
   load_uploaded_file (DocumentProcessor 10 2) (one_file_environment ''words.txt'' words_bytes)
      (Inr words_bytes) words_txt \<noteq> None \<and>
   map chunk_id (the (load_document (DocumentProcessor 10 2)
       (one_file_environment ''words.txt'' words_bytes) words_txt)) = [0, 1] \<and>
   map (\<lambda>d. map_of (metadata d) ''total_chunks'') (the (load_document (DocumentProcessor 10 2)
       (one_file_environment ''words.txt'' words_bytes) words_txt)) = [Some (PyInt 2), Some (PyInt 2)] \<and>
   map (\<lambda>d. map_of (metadata d) ''chunk_index'') (the (load_uploaded_file (DocumentProcessor 10 2)
       (one_file_environment ''words.txt'' words_bytes) (Inr words_bytes) words_txt))
     = [Some (PyInt 0), Some (PyInt 1)]"
  using batch_metadata[OF disjI1, OF words_loaded] batch_metadata[OF disjI2, OF words_uploaded]
  by (simp add: words_loaded words_uploaded)

section \<open>The claim about the two extraction entry points\<close>

text \<open>
  On a text file the path entry point reads through a text-mode file, the buffer entry
  point decodes the bytes: they return the decoded text with and without the newline
  translation.
\<close>

lemma text_extraction_paths:
  assumes ext: "lower (path_suffix fp) \<noteq> ''.pdf''" "lower (path_suffix fp) \<noteq> ''.docx''"
      "lower (path_suffix fp) \<noteq> ''.pptx''"
    and rd: "read_bytes env (path_str fp) = Inr bs"
    and dec: "utf8_decode env bs = Inr s"
  shows "extract_content env fp = universal_newlines s"
    and "extract_content_from_bytes env bs (lower (path_suffix fp)) nm = s"
  using assms by (simp_all add: extract_content_def extract_content_from_bytes_def read_text_def)

text \<open>
  C7: extraction from a path and extraction from a buffer holding the same content give
  the same text.  They do not on a text file with a carriage return: for the content
  \<open>a\r\nb\<close> the path entry point gives \<open>a\nb\<close>, the buffer entry point \<open>a\r\nb\<close>.
\<close>

theorem extraction_differs_on_crlf:
  "extract_content (one_file_environment ''notes.txt'' crlf_bytes) notes_txt
     = [CHR ''a'', CHR 0x0A, CHR ''b''] \<and>
   extract_content_from_bytes (one_file_environment ''notes.txt'' crlf_bytes) crlf_bytes
       ''.txt'' ''notes.txt''
     = [CHR ''a'', CHR 0x0D, CHR 0x0A, CHR ''b'']"
  by (simp add: extract_content_def extract_content_from_bytes_def read_text_def
      one_file_environment_def crlf_bytes_def notes_txt_def ascii_decode_def lower_def lower_char_def
      char_of_def bit_Suc_0_iff)

section \<open>The claim about the ingestors\<close>

text \<open>
  C8: each ingestor returns the local path on success and \<open>None\<close> on any failure,
  a missing resource included.  \<open>DropboxHandler.download_file\<close> calls
  \<open>raise_for_status\<close> and \<open>clone_repo\<close> runs \<open>git\<close> with \<open>check=True\<close>;
  \<open>GoogleDriveHandler.download_file\<close> never looks at the status: on a 404 answer it
  saves the error page and returns its path.
\<close>

theorem drive_returns_path_on_404:
  "drive_download_file not_found_network ''https://drive.google.com/file/d/NOSUCHFILE/view'' None
     = Some ''/tmp/drive_file_NOSUCHFILE'' \<and>
   dropbox_download_file not_found_network ''https://www.dropbox.com/s/nosuchfile/notes.txt?dl=0'' None
     = None \<and>
   clone_repo not_found_network ''owner/nosuchrepo'' None = None"
  by (simp add: drive_download_file_def dropbox_download_file_def clone_repo_def
      extract_file_id_def py_split_def item_def not_found_network_def not_found_def
      drive_filename_def save_body_def raise_for_status_def replace_def startswith_def
      endswith_def)

end
